theory Spec2Isabelle
  imports Main "HOL-Library.Sublist"
begin

section \<open>The AT-command driver \<open>ESPC3\<close> of \<open>TPicoESPC3.py\<close>\<close>

text \<open>
  The driver talks to an ESP32-C3 radio over a UART. Its methods are embedded here as
  functions over an explicit \<open>world\<close>: the bytes written to the UART, the wall
  clock, the console, and a script of what the polling loop of \<open>send\<close> will observe.
  Exceptions are values of the type \<open>error\<close>; a method returns a pair of its outcome
  (\<open>Inl\<close> an exception, \<open>Inr\<close> a value) and the world it leaves behind.

  Byte strings and text strings are both lists of bytes: a Python \<open>str\<close> is held as its
  UTF-8 encoding, so \<open>bytes(at, "utf-8")\<close> is the identity and \<open>str(b, "utf-8")\<close>
  is a validity check.

  The driver is taken as constructed with a UART and with \<open>debug=False\<close>, its default:
  the debug prints of \<open>send\<close> are left out.
\<close>

subsection \<open>Exceptions\<close>

datatype error =
    Exception string
  | RuntimeError string
  | ValueError
  | UnicodeError
  | IndexError
  | KeyError string

text \<open>\<open>UnicodeError\<close> is a subclass of \<open>ValueError\<close>: \<open>except ValueError\<close> catches both.\<close>

definition is_ValueError :: "error \<Rightarrow> bool" where
  "is_ValueError e = (e = ValueError \<or> e = UnicodeError)"

definition is_RuntimeError :: "error \<Rightarrow> bool" where
  "is_RuntimeError e = (case e of RuntimeError _ \<Rightarrow> True | _ \<Rightarrow> False)"

subsection \<open>Byte strings\<close>

definition CR :: char where "CR = CHR 0x0D"
definition LF :: char where "LF = CHR 0x0A"

definition CRLF :: string where
  "CRLF = [CR, LF]"

text \<open>The two sentinels \<open>b"OK\r\n"\<close> and \<open>b"ERROR\r\n"\<close>.\<close>

definition OK :: string where
  "OK = ''OK'' @ CRLF"

definition ERROR :: string where
  "ERROR = ''ERROR'' @ CRLF"

text \<open>\<open>xs[-n:]\<close> for a positive \<open>n\<close>: the last \<open>n\<close> elements, or all of \<open>xs\<close> when it is shorter.\<close>

definition last_n :: "nat \<Rightarrow> 'a list \<Rightarrow> 'a list" where
  "last_n n xs = drop (length xs - n) xs"

text \<open>\<open>xs[:-n]\<close> for a positive \<open>n\<close>: all but the last \<open>n\<close> elements.\<close>

definition drop_last_n :: "nat \<Rightarrow> 'a list \<Rightarrow> 'a list" where
  "drop_last_n n xs = take (length xs - n) xs"

subsection \<open>The transport, the clock and the console\<close>

text \<open>
  One observation of the polling loop, made after the clock has been read and found within
  the deadline: either a byte is waiting (\<open>uart.any()\<close> is true and \<open>uart.read(1)\<close>
  returns it), or nothing is waiting and the clock moves on by some seconds (possibly none)
  before it is read again.
\<close>

datatype event = Rx char | Idle nat

record world =
  tx :: "string list"         \<comment> \<open>the arguments of \<open>uart.write\<close>, oldest first\<close>
  clock :: int                \<comment> \<open>what \<open>time.time()\<close> returns, in seconds\<close>
  script :: "event list"      \<comment> \<open>what the polling loop will observe\<close>
  console :: "string list"    \<comment> \<open>the lines printed, oldest first\<close>

definition uart_write :: "string \<Rightarrow> world \<Rightarrow> world" where
  "uart_write bs w = w\<lparr>tx := tx w @ [bs]\<rparr>"

definition sleep :: "int \<Rightarrow> world \<Rightarrow> world" where
  "sleep s w = w\<lparr>clock := clock w + s\<rparr>"

definition print :: "string \<Rightarrow> world \<Rightarrow> world" where
  "print l w = w\<lparr>console := console w @ [l]\<rparr>"

subsection \<open>\<open>send\<close>\<close>

text \<open>
  The inner loop of \<open>send\<close>:
  \<^verbatim>\<open>
  while (time.time() - stamp) < timeout:
      if self._uart.any():
          response += self._uart.read(1)
          if response[-4:] == b"OK\r\n": break
          if response[-7:] == b"ERROR\r\n": break
  \<close>
  It returns the response, the clock and the events not yet observed. A byte that is
  waiting when the deadline passes stays in the script, for the next attempt to read. When
  the script is used up the line stays silent while the clock runs to the deadline.
\<close>

fun poll :: "int \<Rightarrow> int \<Rightarrow> int \<Rightarrow> string \<Rightarrow> event list \<Rightarrow> string \<times> int \<times> event list" where
  "poll stamp timeout now response [] =
     (if now - stamp < timeout then (response, stamp + timeout, []) else (response, now, []))"
| "poll stamp timeout now response (e # es) =
     (if now - stamp < timeout then
        (case e of
           Idle d \<Rightarrow> poll stamp timeout (now + int d) response es
         | Rx c \<Rightarrow>
             (let response' = response @ [c] in
              if last_n 4 response' = OK then (response', now, es)
              else if last_n 7 response' = ERROR then (response', now, es)
              else poll stamp timeout now response' es))
      else (response, now, e # es))"

text \<open>
  One attempt: the two writes, the time stamp and the polling loop. The result is the
  response buffer that the attempt examines.
\<close>

definition exchange :: "string \<Rightarrow> int \<Rightarrow> world \<Rightarrow> string \<times> world" where
  "exchange at timeout w =
     (let w1 = uart_write at w;
          w2 = uart_write CRLF w1;
          stamp = clock w2;
          (response, now, es) = poll stamp timeout stamp [] (script w2)
      in (response, w2\<lparr>clock := now, script := es\<rparr>))"

text \<open>The loop \<open>for _ in range(retries)\<close>, counted down.\<close>

fun send_loop :: "nat \<Rightarrow> string \<Rightarrow> int \<Rightarrow> world \<Rightarrow> (error + string) \<times> world" where
  "send_loop 0 at timeout w = (Inl (Exception (''No OK response to '' @ at)), w)"
| "send_loop (Suc n) at timeout w =
     (case exchange at timeout w of (response, w') \<Rightarrow>
        if last_n 4 response = OK then (Inr (drop_last_n 4 response), w')
        else send_loop n at timeout (sleep 1 w'))"

definition send :: "string \<Rightarrow> int \<Rightarrow> int \<Rightarrow> world \<Rightarrow> (error + string) \<times> world" where
  "send at timeout retries w = send_loop (nat retries) at timeout w"

text \<open>
  The world in which attempt number \<open>k\<close> (from 0) starts, when no earlier attempt has
  ended the call: each earlier attempt is followed by \<open>time.sleep(1)\<close>.
\<close>

fun attempt_start :: "nat \<Rightarrow> string \<Rightarrow> int \<Rightarrow> world \<Rightarrow> world" where
  "attempt_start 0 at timeout w = w"
| "attempt_start (Suc k) at timeout w =
     attempt_start k at timeout (sleep 1 (snd (exchange at timeout w)))"

subsection \<open>Builtins of the runtime\<close>

text \<open>
  \<open>str(b, "utf-8")\<close> raises \<open>UnicodeError\<close> on bytes that are not UTF-8. The check is
  the one of the MicroPython runtime that the driver runs on: a lead byte announces one,
  two or three continuation bytes, and each announced byte must be a continuation byte.
\<close>

fun utf8_check :: "nat \<Rightarrow> string \<Rightarrow> bool" where
  "utf8_check need [] = (need = 0)"
| "utf8_check need (c # cs) =
     (let b = (of_char c :: nat) in
      if 0 < need then (if 128 \<le> b \<and> b < 192 then utf8_check (need - 1) cs else False)
      else if 192 \<le> b then
        (if 248 \<le> b then False
         else utf8_check (if b < 224 then 1 else if b < 240 then 2 else 3) cs)
      else if 128 \<le> b then False
      else utf8_check 0 cs)"

definition decode_utf8 :: "string \<Rightarrow> error + string" where
  "decode_utf8 bs = (if utf8_check 0 bs then Inr bs else Inl UnicodeError)"

text \<open>\<open>s.strip(chars)\<close>: the characters are removed from both ends.\<close>

definition strip_chars :: "(char \<Rightarrow> bool) \<Rightarrow> string \<Rightarrow> string" where
  "strip_chars P s = rev (dropWhile P (rev (dropWhile P s)))"

definition quote :: char where "quote = CHR 0x22"

definition strip_quotes :: "string \<Rightarrow> string" where
  "strip_quotes s = strip_chars (\<lambda>c. c = quote) s"

text \<open>
  \<open>int(b)\<close> on a byte string: white space around the number is skipped, a sign may
  come first, and at least one decimal digit must follow and nothing else. Anything else
  is a \<open>ValueError\<close> (digit grouping with underscores, which no reply of the radio uses,
  is reported as a \<open>ValueError\<close> too).
\<close>

definition is_space :: "char \<Rightarrow> bool" where
  "is_space c = (c \<in> set [CHR 0x20, CHR 0x09, CHR 0x0A, CHR 0x0B, CHR 0x0C, CHR 0x0D])"

definition is_digit :: "char \<Rightarrow> bool" where
  "is_digit c = (48 \<le> (of_char c :: nat) \<and> (of_char c :: nat) \<le> 57)"

definition digits_value :: "string \<Rightarrow> int" where
  "digits_value ds = foldl (\<lambda>n c. 10 * n + (int (of_char c) - 48)) 0 ds"

definition py_int :: "string \<Rightarrow> error + int" where
  "py_int bs =
     (let s = strip_chars is_space bs;
          neg = (case s of [] \<Rightarrow> False | c # _ \<Rightarrow> c = CHR ''-'');
          ds = (case s of [] \<Rightarrow> [] | c # r \<Rightarrow> if c = CHR ''-'' \<or> c = CHR ''+'' then r else s)
      in if ds \<noteq> [] \<and> list_all is_digit ds
         then Inr (if neg then - digits_value ds else digits_value ds)
         else Inl ValueError)"

text \<open>\<open>"%d" % n\<close>: the decimal digits of an integer.\<close>

function dec_nat :: "nat \<Rightarrow> string" where
  "dec_nat n =
     (if n < 10 then [char_of (48 + n)] else dec_nat (n div 10) @ [char_of (48 + n mod 10)])"
  by pat_completeness auto
termination
  by (relation "measure id") auto

declare dec_nat.simps [simp del]

definition format_d :: "int \<Rightarrow> string" where
  "format_d n = (if n < 0 then ''-'' @ dec_nat (nat (- n)) else dec_nat (nat n))"

text \<open>
  \<open>b.split(sep)\<close> for a separator that is not empty: the pieces between the occurrences
  of \<open>sep\<close>, found from the left without overlap. (Python refuses an empty separator; the
  driver splits at \<open>b"\r\n"\<close> and \<open>b","\<close> only.)
\<close>

function bytes_split :: "string \<Rightarrow> string \<Rightarrow> string list" where
  "bytes_split sep [] = [[]]"
| "bytes_split sep (c # cs) =
     (if sep \<noteq> [] \<and> prefix sep (c # cs)
      then [] # bytes_split sep (drop (length sep) (c # cs))
      else (case bytes_split sep cs of
              [] \<Rightarrow> [[c]]
            | l # ls \<Rightarrow> (c # l) # ls))"
  by pat_completeness auto
termination
  by (relation "measure (\<lambda>(sep, s). length s)") (auto simp: neq_Nil_conv)

text \<open>\<open>xs[i]\<close> for an index that is not negative.\<close>

definition item :: "'a list \<Rightarrow> nat \<Rightarrow> error + 'a" where
  "item xs i = (if i < length xs then Inr (xs ! i) else Inl IndexError)"

text \<open>Sequencing of two steps of which the first may raise.\<close>

definition and_then :: "error + 'a \<Rightarrow> ('a \<Rightarrow> error + 'b) \<Rightarrow> error + 'b" where
  "and_then r f = (case r of Inl e \<Rightarrow> Inl e | Inr x \<Rightarrow> f x)"

subsection \<open>Class constants\<close>

definition STATUS_APCONNECTED :: int where "STATUS_APCONNECTED = 2"
definition STATUS_SOCKETOPEN :: int where "STATUS_SOCKETOPEN = 3"
definition STATUS_SOCKETCLOSED :: int where "STATUS_SOCKETCLOSED = 4"
definition STATUS_NOTCONNECTED :: int where "STATUS_NOTCONNECTED = 5"

definition MODE_STATION :: int where "MODE_STATION = 1"
definition MODE_SOFTAP :: int where "MODE_SOFTAP = 2"
definition MODE_SOFTAPSTATION :: int where "MODE_SOFTAPSTATION = 3"

subsection \<open>\<open>enable_ipv6\<close> and \<open>ping\<close>\<close>

definition enable_ipv6 :: "world \<Rightarrow> (error + unit) \<times> world" where
  "enable_ipv6 w =
     (case send ''AT+CIPV6=1'' 3 3 w of
        (Inl e, w1) \<Rightarrow> (Inl e, w1)
      | (Inr _, w1) \<Rightarrow> (Inr (), print ''IPv6 enabled.'' w1))"

text \<open>
  The loop over the lines of the ping reply. The result \<open>None\<close> is Python's \<open>None\<close>,
  returned when the number cannot be read.
\<close>

fun ping_lines :: "string list \<Rightarrow> error + int option" where
  "ping_lines [] = Inl (RuntimeError (''Couldn'' @ [CHR 0x27] @ ''t ping''))"
| "ping_lines (line # lines) =
     (if line \<noteq> [] \<and> prefix ''+'' line then
        (case (if take 4 (drop 1 line) = ''PING'' then py_int (drop 6 line)
               else py_int (drop 1 line)) of
           Inr n \<Rightarrow> Inr (Some n)
         | Inl e \<Rightarrow> if is_ValueError e then Inr None else Inl e)
      else ping_lines lines)"

definition ping_command :: "string \<Rightarrow> string" where
  "ping_command host = ''AT+PING='' @ [quote] @ strip_quotes host @ [quote]"

definition ping :: "string \<Rightarrow> world \<Rightarrow> (error + int option) \<times> world" where
  "ping host w =
     (case enable_ipv6 w of
        (Inl e, w1) \<Rightarrow> (Inl e, w1)
      | (Inr _, w1) \<Rightarrow>
          (case send (ping_command host) 5 3 w1 of
             (Inl e, w2) \<Rightarrow> (Inl e, w2)
           | (Inr reply, w2) \<Rightarrow> (ping_lines (bytes_split CRLF reply), w2)))"

subsection \<open>\<open>parse_cwjap_response\<close>\<close>

text \<open>The dictionary that \<open>parse_cwjap_response\<close> returns, one field for each key.\<close>

record connection_info =
  ssid :: string
  bssid :: string
  channel :: int
  rssi :: int
  pci_en :: int
  reconn_interval :: int
  listen_interval :: int
  scan_mode :: int
  pmf :: int

text \<open>\<open>str(line[i], "utf-8").strip('"')\<close> and \<open>int(line[i])\<close>.\<close>

definition text_field :: "string list \<Rightarrow> nat \<Rightarrow> error + string" where
  "text_field line i =
     and_then (item line i) (\<lambda>v. and_then (decode_utf8 v) (\<lambda>s. Inr (strip_quotes s)))"

definition int_field :: "string list \<Rightarrow> nat \<Rightarrow> error + int" where
  "int_field line i = and_then (item line i) py_int"

text \<open>The dictionary display: the values are computed in the order in which they are written.\<close>

definition parsed_values :: "string list \<Rightarrow> error + connection_info" where
  "parsed_values line =
     and_then (text_field line 0) (\<lambda>v0.
     and_then (text_field line 1) (\<lambda>v1.
     and_then (int_field line 2) (\<lambda>v2.
     and_then (int_field line 3) (\<lambda>v3.
     and_then (int_field line 4) (\<lambda>v4.
     and_then (int_field line 5) (\<lambda>v5.
     and_then (int_field line 6) (\<lambda>v6.
     and_then (int_field line 7) (\<lambda>v7.
     and_then (int_field line 8) (\<lambda>v8.
       Inr \<lparr>ssid = v0, bssid = v1, channel = v2, rssi = v3, pci_en = v4,
            reconn_interval = v5, listen_interval = v6, scan_mode = v7, pmf = v8\<rparr>)))))))))"

fun cwjap_lines :: "string list \<Rightarrow> error + connection_info option" where
  "cwjap_lines [] = Inr None"
| "cwjap_lines (line # replies) =
     (if prefix ''+CWJAP:'' line
      then and_then (parsed_values (bytes_split '','' (drop 7 line))) (\<lambda>ci. Inr (Some ci))
      else cwjap_lines replies)"

definition parse_cwjap_response :: "string \<Rightarrow> error + connection_info option" where
  "parse_cwjap_response reply = cwjap_lines (bytes_split CRLF reply)"

subsection \<open>The properties \<open>mode\<close> and \<open>status\<close>, and \<open>is_connected\<close>\<close>

fun mode_lines :: "string list \<Rightarrow> error + int" where
  "mode_lines [] = Inl (RuntimeError ''Bad response to CWMODE?'')"
| "mode_lines (reply # replies) =
     (if prefix ''+CWMODE:'' reply then py_int (drop 8 reply) else mode_lines replies)"

definition mode :: "world \<Rightarrow> (error + int) \<times> world" where
  "mode w =
     (case send ''AT+CWMODE?'' 5 3 w of
        (Inl e, w1) \<Rightarrow> (Inl e, w1)
      | (Inr r, w1) \<Rightarrow> (mode_lines (bytes_split CRLF r), w1))"

definition mode_setter :: "int \<Rightarrow> world \<Rightarrow> (error + unit) \<times> world" where
  "mode_setter m w =
     (if m \<notin> {1, 2, 3} then (Inl (RuntimeError ''Invalid Mode''), w)
      else (case send (''AT+CWMODE='' @ format_d m) 3 3 w of
              (Inl e, w1) \<Rightarrow> (Inl e, w1)
            | (Inr _, w1) \<Rightarrow> (Inr (), w1)))"

text \<open>
  The first two lines of \<open>join_ap\<close> and of the body of \<open>get_AP\<close>:
  \<^verbatim>\<open>
  if self.mode != self.MODE_STATION:
      self.mode = self.MODE_STATION
  \<close>
\<close>

definition ensure_station :: "world \<Rightarrow> (error + unit) \<times> world" where
  "ensure_station w =
     (case mode w of
        (Inl e, w1) \<Rightarrow> (Inl e, w1)
      | (Inr m, w1) \<Rightarrow> if m \<noteq> MODE_STATION then mode_setter MODE_STATION w1 else (Inr (), w1))"

text \<open>The status is the integer read from the single byte \<open>reply[7:8]\<close>.\<close>

fun status_lines :: "string list \<Rightarrow> error + int option" where
  "status_lines [] = Inr None"
| "status_lines (reply # replies) =
     (if prefix ''STATUS:'' reply
      then and_then (py_int (take 1 (drop 7 reply))) (\<lambda>n. Inr (Some n))
      else status_lines replies)"

definition status :: "world \<Rightarrow> (error + int option) \<times> world" where
  "status w =
     (case send ''AT+CIPSTATUS'' 5 3 w of
        (Inl e, w1) \<Rightarrow> (Inl e, w1)
      | (Inr r, w1) \<Rightarrow> (status_lines (bytes_split CRLF r), w1))"

definition is_connected :: "world \<Rightarrow> (error + bool) \<times> world" where
  "is_connected w =
     (case status w of
        (Inl e, w1) \<Rightarrow> (Inl e, w1)
      | (Inr state, w1) \<Rightarrow>
          (Inr (state \<in> {Some STATUS_APCONNECTED, Some STATUS_SOCKETOPEN,
                         Some STATUS_SOCKETCLOSED}), w1))"

subsection \<open>\<open>join_ap\<close> and \<open>connect\<close>\<close>

text \<open>The f-string \<open>f'AT+CWJAP="{ssid}","{password}"'\<close>.\<close>

definition join_command :: "string \<Rightarrow> string \<Rightarrow> string" where
  "join_command name password =
     ''AT+CWJAP='' @ [quote] @ name @ [quote] @ '','' @ [quote] @ password @ [quote]"

text \<open>The loop \<open>for _ in range(3)\<close> of \<open>join_ap\<close>, counted down.\<close>

fun join_loop :: "nat \<Rightarrow> string \<Rightarrow> string \<Rightarrow> world \<Rightarrow> (error + connection_info) \<times> world" where
  "join_loop 0 name password w = (Inl (Exception ''Could not connect to the network.''), w)"
| "join_loop (Suc n) name password w =
     (case send (join_command name password) 15 3 w of
        (Inl e, w1) \<Rightarrow> (Inl e, w1)
      | (Inr reply, w1) \<Rightarrow>
          if sublist ''WIFI CONNECTED'' reply \<and> sublist ''WIFI GOT IP'' reply then
            (case send ''AT+CWJAP?'' 10 3 w1 of
               (Inl e, w2) \<Rightarrow> (Inl e, w2)
             | (Inr cwjap_reply, w2) \<Rightarrow>
                 (case parse_cwjap_response cwjap_reply of
                    Inl e \<Rightarrow> (Inl e, w2)
                  | Inr (Some parsed_cwjap) \<Rightarrow> (Inr parsed_cwjap, w2)
                  | Inr None \<Rightarrow> join_loop n name password w2))
          else join_loop n name password w1)"

text \<open>The parameter \<open>ssid\<close> of the source is called \<open>name\<close>, as \<open>ssid\<close> is a field here.\<close>

definition join_ap :: "string \<Rightarrow> string \<Rightarrow> world \<Rightarrow> (error + connection_info) \<times> world" where
  "join_ap name password w =
     (case ensure_station w of
        (Inl e, w1) \<Rightarrow> (Inl e, w1)
      | (Inr _, w1) \<Rightarrow>
          (case send ''AT+CWJAP?'' 10 3 w1 of
             (Inl e, w2) \<Rightarrow> (Inl e, w2)
           | (Inr cwjap_reply, w2) \<Rightarrow>
               (case parse_cwjap_response cwjap_reply of
                  Inl e \<Rightarrow> (Inl e, w2)
                | Inr None \<Rightarrow> join_loop 3 name password w2
                | Inr (Some parsed_cwjap) \<Rightarrow>
                    if ssid parsed_cwjap = name then (Inr parsed_cwjap, w2)
                    else join_loop 3 name password w2)))"

text \<open>
  The body of the \<open>try\<close> of \<open>connect\<close>. The dictionary \<open>secrets\<close> is a map; a missing
  key is a \<open>KeyError\<close>.
\<close>

definition connect_try :: "(string \<rightharpoonup> string) \<Rightarrow> world \<Rightarrow> (error + bool) \<times> world" where
  "connect_try secrets w =
     (case is_connected w of
        (Inl e, w1) \<Rightarrow> (Inl e, w1)
      | (Inr connected, w1) \<Rightarrow>
          if \<not> connected then
            (case secrets ''ssid'' of
               None \<Rightarrow> (Inl (KeyError ''ssid''), w1)
             | Some name \<Rightarrow>
                 (case secrets ''password'' of
                    None \<Rightarrow> (Inl (KeyError ''password''), w1)
                  | Some password \<Rightarrow>
                      (case join_ap name password w1 of
                         (Inl e, w2) \<Rightarrow> (Inl e, w2)
                       | (Inr _, w2) \<Rightarrow> (Inr True, w2))))
          else (Inr True, w1))"

text \<open>
  The loop \<open>while retries > 0\<close> of \<open>connect\<close>, on the value of \<open>retries\<close>. Only a
  \<open>RuntimeError\<close> is caught. When the loop ends the method returns nothing, which is
  Python's \<open>None\<close> and here \<open>None\<close>; \<open>Some True\<close> is \<open>True\<close>.
\<close>

fun connect_loop :: "nat \<Rightarrow> (string \<rightharpoonup> string) \<Rightarrow> world \<Rightarrow> (error + bool option) \<times> world" where
  "connect_loop 0 secrets w = (Inr None, w)"
| "connect_loop (Suc retries) secrets w =
     (case connect_try secrets w of
        (Inr b, w1) \<Rightarrow> (Inr (Some b), w1)
      | (Inl e, w1) \<Rightarrow>
          (case e of
             RuntimeError exp \<Rightarrow>
               connect_loop retries secrets
                 (sleep 2 (print (''Failed to connect, retrying'' @ [LF] @ '' '' @ exp) w1))
           | _ \<Rightarrow> (Inl e, w1)))"

definition connect :: "(string \<rightharpoonup> string) \<Rightarrow> world \<Rightarrow> (error + bool option) \<times> world" where
  "connect secrets w = connect_loop 3 secrets w"

subsection \<open>\<open>get_AP\<close>\<close>

text \<open>An entry of a \<open>router\<close> list is a string or an integer.\<close>

datatype field = Text string | Number int

text \<open>\<open>encryption_mapping.get(encryption_method, "Unknown")\<close>.\<close>

definition encryption_mapping :: "int \<Rightarrow> string" where
  "encryption_mapping n =
     (if n = 0 then ''Ninguna'' else if n = 1 then ''WEP'' else if n = 2 then ''WPA-PSK''
      else if n = 3 then ''WPA2-PSK'' else if n = 4 then ''WPA/WPA2-PSK''
      else if n = 5 then ''WPA2 Enterprise'' else if n = 6 then ''WPA3-PSK''
      else if n = 7 then ''WPA2/WPA3-PSK'' else if n = 8 then ''WAPI-PSK''
      else if n = 9 then ''OWE'' else ''Unknown'')"

text \<open>
  The body of the \<open>try\<close> for the field at position \<open>i\<close>: the value to store in
  \<open>router[i]\<close>, or \<open>None\<close> when no branch of the chain applies (\<open>i\<close> is 12 or more).
\<close>

definition convert_field :: "nat \<Rightarrow> string \<Rightarrow> error + field option" where
  "convert_field i val =
     (if i = 0 then and_then (py_int val) (\<lambda>n. Inr (Some (Text (encryption_mapping n))))
      else if i = 1 then and_then (decode_utf8 val) (\<lambda>s. Inr (Some (Text (strip_quotes s))))
      else if i = 2 then and_then (py_int val) (\<lambda>n. Inr (Some (Number n)))
      else if i = 3 then and_then (decode_utf8 val) (\<lambda>s. Inr (Some (Text s)))
      else if i \<le> 11 then and_then (py_int val) (\<lambda>n. Inr (Some (Number n)))
      else Inr None)"

text \<open>
  The loop \<open>for i, val in enumerate(line)\<close>. A \<open>ValueError\<close> of the body is caught, and
  the handler stores \<open>str(val, "utf-8").strip('"')\<close>, which may raise in its turn.
\<close>

fun fill_router :: "nat \<Rightarrow> string list \<Rightarrow> field list \<Rightarrow> error + field list" where
  "fill_router i [] router = Inr router"
| "fill_router i (val # vals) router =
     (case convert_field i val of
        Inr None \<Rightarrow> fill_router (Suc i) vals router
      | Inr (Some v) \<Rightarrow> fill_router (Suc i) vals (router[i := v])
      | Inl e \<Rightarrow>
          if is_ValueError e then
            (case decode_utf8 val of
               Inl e' \<Rightarrow> Inl e'
             | Inr s \<Rightarrow> fill_router (Suc i) vals (router[i := Text (strip_quotes s)]))
          else Inl e)"

text \<open>The loop \<open>for line in scan\<close>, which appends one router for each matching line.\<close>

fun scan_lines :: "string list \<Rightarrow> error + field list list" where
  "scan_lines [] = Inr []"
| "scan_lines (line # scan) =
     (if prefix ''+CWLAP:('' line then
        and_then (fill_router 0 (bytes_split '','' (drop 8 (butlast line)))
                    (replicate 12 (Text ''Unknown'')))
          (\<lambda>router. and_then (scan_lines scan) (\<lambda>routers. Inr (router # routers)))
      else scan_lines scan)"

text \<open>
  The loop \<open>for _ in range(retries)\<close> of \<open>get_AP\<close>, counted down. A \<open>RuntimeError\<close>
  raised by the mode check or by the scan command starts the next round; any other
  exception leaves the method.
\<close>

fun get_AP_loop :: "nat \<Rightarrow> world \<Rightarrow> (error + field list list) \<times> world" where
  "get_AP_loop 0 w = (Inr [], w)"
| "get_AP_loop (Suc n) w =
     (case ensure_station w of
        (Inl e, w1) \<Rightarrow> if is_RuntimeError e then get_AP_loop n w1 else (Inl e, w1)
      | (Inr _, w1) \<Rightarrow>
          (case send ''AT+CWLAP'' 5 3 w1 of
             (Inl e, w2) \<Rightarrow> if is_RuntimeError e then get_AP_loop n w2 else (Inl e, w2)
           | (Inr r, w2) \<Rightarrow> (scan_lines (bytes_split CRLF r), w2)))"

definition get_AP :: "int \<Rightarrow> world \<Rightarrow> (error + field list list) \<times> world" where
  "get_AP retries w = get_AP_loop (nat retries) w"

subsection \<open>Notions used in the statements\<close>

text \<open>No prefix of the buffer, the buffer itself included, ends with the success sentinel.\<close>

definition ok_free :: "string \<Rightarrow> bool" where
  "ok_free xs = (\<forall>p. prefix p xs \<longrightarrow> \<not> suffix OK p)"


text \<open>The positions of a scan line that the driver converts with \<open>int\<close>.\<close>

definition numeric_position :: "nat \<Rightarrow> bool" where
  "numeric_position i = (i \<le> 11 \<and> i \<noteq> 1 \<and> i \<noteq> 3)"

text \<open>The fields of a scan line: \<open>line[8:-1].split(b",")\<close>.\<close>

definition line_fields :: "string \<Rightarrow> string list" where
  "line_fields line = bytes_split '','' (drop 8 (butlast line))"

text \<open>
  The router of a scan line keeps as text what \<open>int\<close> refuses: it has twelve entries, and
  each field at a numeric position that does not convert is there without its quotes.
\<close>

definition kept_as_text :: "string \<Rightarrow> field list \<Rightarrow> bool" where
  "kept_as_text line router =
     (length router = 12
      \<and> (\<forall>i<length (line_fields line).
            numeric_position i \<and> py_int (line_fields line ! i) = Inl ValueError
            \<longrightarrow> router ! i = Text (strip_quotes (line_fields line ! i))))"

text \<open>
  A radio that sends the given bytes, one for each poll, and is silent afterwards; nothing
  has been written or printed yet and the clock reads 0.
\<close>

definition radio :: "string \<Rightarrow> world" where
  "radio bs = \<lparr>tx = [], clock = 0, script = map Rx bs, console = []\<rparr>"

text \<open>The line \<open>+CWJAP:"home","aa:bb:cc:dd:ee:ff",6,-40,1,1,3,0,1\<close>.\<close>

definition home_line :: string where
  "home_line = ''+CWJAP:'' @ [quote] @ ''home'' @ [quote] @ '','' @ [quote]
     @ ''aa:bb:cc:dd:ee:ff'' @ [quote] @ '',6,-40,1,1,3,0,1''"

definition home_info :: connection_info where
  "home_info = \<lparr>ssid = ''home'', bssid = ''aa:bb:cc:dd:ee:ff'', channel = 6, rssi = - 40,
     pci_en = 1, reconn_interval = 1, listen_interval = 3, scan_mode = 0, pmf = 1\<rparr>"

definition home_secrets :: "string \<rightharpoonup> string" where
  "home_secrets = [''ssid'' \<mapsto> ''home'', ''password'' \<mapsto> ''pw'']"


section \<open>Properties of \<open>send\<close>\<close>


lemma last_n_OK: "last_n 4 xs = OK \<longleftrightarrow> suffix OK xs"
proof
  assume "last_n 4 xs = OK"
  then have "xs = take (length xs - 4) xs @ OK"
    unfolding last_n_def by (metis append_take_drop_id)
  then show "suffix OK xs"
    by (metis suffixI)
next
  assume "suffix OK xs"
  then obtain zs where "xs = zs @ OK" by (auto simp: suffix_def)
  then show "last_n 4 xs = OK"
    by (simp add: last_n_def OK_def CRLF_def)
qed


lemma ok_free_snoc: "ok_free xs \<Longrightarrow> \<not> suffix OK (xs @ [c]) \<Longrightarrow> ok_free (xs @ [c])"
  by (auto simp: ok_free_def prefix_snoc)

lemma ok_free_sublist: "ok_free xs \<longleftrightarrow> \<not> sublist OK xs"
  by (auto simp: ok_free_def sublist_altdef)

lemma poll_ok_free:
  "poll stamp timeout now r es = (buf, now', es') \<Longrightarrow> ok_free r \<Longrightarrow>
     (suffix OK buf \<and> ok_free (butlast buf) \<and> buf \<noteq> []) \<or> ok_free buf"
proof (induction es arbitrary: now r)
  case Nil
  then show ?case by (auto split: if_splits)
next
  case (Cons e es)
  show ?case
  proof (cases "now - stamp < timeout")
    case False
    with Cons.prems show ?thesis by auto
  next
    case True
    show ?thesis
    proof (cases e)
      case (Idle d)
      with True Cons.prems have "poll stamp timeout (now + int d) r es = (buf, now', es')"
        by simp
      from Cons.IH [OF this Cons.prems(2)] show ?thesis .
    next
      case (Rx c)
      show ?thesis
      proof (cases "last_n 4 (r @ [c]) = OK")
        case ok: True
        with True Rx Cons.prems have "buf = r @ [c]" by (simp add: Let_def)
        with ok Cons.prems(2) show ?thesis by (simp add: last_n_OK)
      next
        case nok: False
        then have free: "ok_free (r @ [c])"
          using Cons.prems(2) by (simp add: last_n_OK ok_free_snoc)
        show ?thesis
        proof (cases "last_n 7 (r @ [c]) = ERROR")
          case True
          with \<open>now - stamp < timeout\<close> Rx nok Cons.prems have "buf = r @ [c]" by (simp add: Let_def)
          with free show ?thesis by simp
        next
          case False
          with \<open>now - stamp < timeout\<close> Rx nok Cons.prems
          have "poll stamp timeout now (r @ [c]) es = (buf, now', es')" by (simp add: Let_def)
          from Cons.IH [OF this free] show ?thesis .
        qed
      qed
    qed
  qed
qed


lemma exchange_ok_free:
  assumes "exchange at timeout w = (buf, w')"
  shows "(suffix OK buf \<and> \<not> sublist OK (butlast buf)) \<or> \<not> sublist OK buf"
proof -
  obtain now es where "poll (clock w) timeout (clock w) [] (script w) = (buf, now, es)"
    using assms by (auto simp: exchange_def uart_write_def Let_def split: prod.splits)
  moreover have "ok_free []" by (simp add: ok_free_def OK_def)
  ultimately show ?thesis
    using poll_ok_free by (fastforce simp: ok_free_sublist)
qed

lemma tx_exchange: "tx (snd (exchange at timeout w)) = tx w @ [at, CRLF]"
  by (simp add: exchange_def uart_write_def Let_def split: prod.splits)

lemma tx_sleep: "tx (sleep s w) = tx w"
  by (simp add: sleep_def)

lemma tx_attempt_start:
  "tx (attempt_start k at timeout w) = tx w @ concat (replicate k [at, CRLF])"
  by (induction k arbitrary: w) (simp_all add: tx_exchange tx_sleep)

lemma send_loop_fail:
  "(\<forall>k<n. last_n 4 (fst (exchange at timeout (attempt_start k at timeout w))) \<noteq> OK) \<Longrightarrow>
   send_loop n at timeout w =
     (Inl (Exception (''No OK response to '' @ at)), attempt_start n at timeout w)"
proof (induction n arbitrary: w)
  case 0
  then show ?case by simp
next
  case (Suc n)
  from Suc.prems have first: "last_n 4 (fst (exchange at timeout w)) \<noteq> OK"
    by (metis attempt_start.simps(1) zero_less_Suc)
  have rest: "\<forall>k<n. last_n 4 (fst (exchange at timeout
      (attempt_start k at timeout (sleep 1 (snd (exchange at timeout w)))))) \<noteq> OK"
    using Suc.prems by (metis attempt_start.simps(2) Suc_less_eq)
  show ?case
    using first Suc.IH [OF rest] by (cases "exchange at timeout w") simp
qed

lemma send_loop_success:
  "k < n \<Longrightarrow>
   (\<forall>j<k. last_n 4 (fst (exchange at timeout (attempt_start j at timeout w))) \<noteq> OK) \<Longrightarrow>
   exchange at timeout (attempt_start k at timeout w) = (buf, w') \<Longrightarrow>
   last_n 4 buf = OK \<Longrightarrow>
   send_loop n at timeout w = (Inr (drop_last_n 4 buf), w')"
proof (induction k arbitrary: n w)
  case 0
  then obtain m where "n = Suc m" by (cases n) auto
  with 0 show ?case by simp
next
  case (Suc k)
  then obtain m where n: "n = Suc m" and km: "k < m" by (cases n) auto
  from Suc.prems(2) have first: "last_n 4 (fst (exchange at timeout w)) \<noteq> OK"
    by (metis attempt_start.simps(1) zero_less_Suc)
  have rest: "\<forall>j<k. last_n 4 (fst (exchange at timeout
      (attempt_start j at timeout (sleep 1 (snd (exchange at timeout w)))))) \<noteq> OK"
    using Suc.prems(2) by (metis attempt_start.simps(2) Suc_less_eq)
  have "send_loop m at timeout (sleep 1 (snd (exchange at timeout w))) = (Inr (drop_last_n 4 buf), w')"
    using Suc.IH [OF km rest] Suc.prems(3,4) by simp
  with first n show ?case by (cases "exchange at timeout w") simp
qed


lemma sublist_drop_last_n:
  assumes "suffix OK buf" "\<not> sublist OK (butlast buf)"
  shows "\<not> sublist OK (drop_last_n 4 buf)"
proof
  assume "sublist OK (drop_last_n 4 buf)"
  moreover have "drop_last_n 4 buf = take (length buf - 4) (butlast buf)"
    by (simp add: drop_last_n_def butlast_conv_take min_def)
  then have "sublist (drop_last_n 4 buf) (butlast buf)"
    by simp
  ultimately show False
    using assms(2) sublist_order.order.trans by blast
qed

text \<open>
  Claim C1. Whenever an attempt of \<open>send\<close> is reached (no earlier attempt has ended
  with the success sentinel) and its response buffer comes to end with \<open>OK\<close> and CRLF,
  \<open>send\<close> returns that buffer without its last four bytes, which are the sentinel, and
  the sentinel occurs nowhere in the payload returned.
\<close>

theorem send_returns_stripped_payload:
  assumes "k < nat retries"
    and "\<forall>j<k. \<not> suffix OK (fst (exchange at timeout (attempt_start j at timeout w)))"
    and "exchange at timeout (attempt_start k at timeout w) = (buf, w')"
    and "suffix OK buf"
  shows "send at timeout retries w = (Inr (take (length buf - 4) buf), w')
    \<and> buf = take (length buf - 4) buf @ OK
    \<and> \<not> sublist OK (take (length buf - 4) buf)"
proof -
  have "send at timeout retries w = (Inr (drop_last_n 4 buf), w')"
    unfolding send_def
    using assms by (intro send_loop_success [where k = k]) (simp_all add: last_n_OK)
  moreover have "buf = drop_last_n 4 buf @ OK"
    using assms(4) by (auto simp: suffix_def drop_last_n_def OK_def CRLF_def)
  moreover have "\<not> sublist OK (drop_last_n 4 buf)"
  proof -
    from exchange_ok_free [OF assms(3)]
    have "\<not> sublist OK (butlast buf)"
      using sublist_butlast sublist_order.order.trans by blast
    with assms(4) show ?thesis by (rule sublist_drop_last_n)
  qed
  ultimately show ?thesis by (simp add: drop_last_n_def)
qed

theorem send_returns_stripped_payload_witness:
  "(1::nat) < nat 3
   \<and> \<not> suffix OK (fst (exchange ''AT'' 1 (attempt_start 0 ''AT'' 1 (radio (ERROR @ ''hi'' @ OK)))))
   \<and> suffix OK (fst (exchange ''AT'' 1 (attempt_start 1 ''AT'' 1 (radio (ERROR @ ''hi'' @ OK)))))
   \<and> fst (send ''AT'' 1 3 (radio (ERROR @ ''hi'' @ OK))) = Inr ''hi''
   \<and> \<not> sublist OK ''hi''"
proof -
  let ?w = "radio (ERROR @ ''hi'' @ OK)"
  let ?x = "exchange ''AT'' 1 (attempt_start 1 ''AT'' 1 ?w)"
  have h1: "(1::nat) < nat 3" by simp
  have h0: "\<not> suffix OK (fst (exchange ''AT'' 1 (attempt_start 0 ''AT'' 1 ?w)))"
    by code_simp
  then have h2: "\<forall>j<1. \<not> suffix OK (fst (exchange ''AT'' 1 (attempt_start j ''AT'' 1 ?w)))"
    by simp
  have h3: "?x = (fst ?x, snd ?x)" by simp
  have h4: "suffix OK (fst ?x)" by code_simp
  have buf: "fst ?x = ''hi'' @ OK" by code_simp
  from send_returns_stripped_payload [OF h1 h2 h3 h4] buf
  have "fst (send ''AT'' 1 3 ?w) = Inr ''hi'' \<and> \<not> sublist OK ''hi''"
    by (simp add: OK_def CRLF_def)
  with h1 h0 h4 show ?thesis by blast
qed

text \<open>
  Claim C2. When no attempt of \<open>send\<close> ends with the success sentinel (each one ends with
  the failure sentinel or at its deadline), \<open>send\<close> raises its exception and returns no
  payload; it has then made every attempt, writing the command and CRLF once for each, and
  the success sentinel occurs in none of the buffers that the attempts have examined.
\<close>

theorem send_raises_after_all_attempts:
  assumes "\<forall>k<nat retries. \<not> suffix OK (fst (exchange at timeout (attempt_start k at timeout w)))"
  shows "send at timeout retries w =
      (Inl (Exception (''No OK response to '' @ at)), attempt_start (nat retries) at timeout w)
    \<and> tx (attempt_start (nat retries) at timeout w)
        = tx w @ concat (replicate (nat retries) [at, CRLF])
    \<and> (\<forall>k<nat retries.
          \<not> sublist OK (fst (exchange at timeout (attempt_start k at timeout w))))"
proof -
  have "send at timeout retries w =
      (Inl (Exception (''No OK response to '' @ at)), attempt_start (nat retries) at timeout w)"
    unfolding send_def using assms by (intro send_loop_fail) (simp add: last_n_OK)
  moreover have "\<not> sublist OK (fst (exchange at timeout (attempt_start k at timeout w)))"
    if "k < nat retries" for k
  proof -
    let ?x = "exchange at timeout (attempt_start k at timeout w)"
    have "?x = (fst ?x, snd ?x)" by simp
    from exchange_ok_free [OF this] assms that show ?thesis by blast
  qed
  ultimately show ?thesis by (simp add: tx_attempt_start)
qed

theorem send_raises_after_all_attempts_witness:
  "\<not> suffix OK (fst (exchange ''AT'' 1 (attempt_start 0 ''AT'' 1 (radio (''busy'' @ ERROR @ ''OK'')))))
   \<and> \<not> suffix OK (fst (exchange ''AT'' 1 (attempt_start 1 ''AT'' 1 (radio (''busy'' @ ERROR @ ''OK'')))))
   \<and> \<not> suffix OK (fst (exchange ''AT'' 1 (attempt_start 2 ''AT'' 1 (radio (''busy'' @ ERROR @ ''OK'')))))
   \<and> fst (send ''AT'' 1 3 (radio (''busy'' @ ERROR @ ''OK''))) = Inl (Exception ''No OK response to AT'')
   \<and> tx (snd (send ''AT'' 1 3 (radio (''busy'' @ ERROR @ ''OK''))))
       = [''AT'', CRLF, ''AT'', CRLF, ''AT'', CRLF]"
proof -
  let ?w = "radio (''busy'' @ ERROR @ ''OK'')"
  have a: "\<not> suffix OK (fst (exchange ''AT'' 1 (attempt_start 0 ''AT'' 1 ?w)))"
    and b: "\<not> suffix OK (fst (exchange ''AT'' 1 (attempt_start 1 ''AT'' 1 ?w)))"
    and c: "\<not> suffix OK (fst (exchange ''AT'' 1 (attempt_start 2 ''AT'' 1 ?w)))"
    by code_simp+
  have h: "\<forall>k<nat 3. \<not> suffix OK (fst (exchange ''AT'' 1 (attempt_start k ''AT'' 1 ?w)))"
  proof (intro allI impI)
    fix k :: nat assume "k < nat 3"
    then have "k = 0 \<or> k = 1 \<or> k = 2" by auto
    with a b c show "\<not> suffix OK (fst (exchange ''AT'' 1 (attempt_start k ''AT'' 1 ?w)))"
      by auto
  qed
  have t: "tx ?w = []" by (simp add: radio_def)
  from send_raises_after_all_attempts [OF h] t
  have "fst (send ''AT'' 1 3 ?w) = Inl (Exception ''No OK response to AT'')
    \<and> tx (snd (send ''AT'' 1 3 ?w)) = [''AT'', CRLF, ''AT'', CRLF, ''AT'', CRLF]"
    by (simp add: numeral_3_eq_3)
  with a b c show ?thesis by blast
qed

section \<open>What the methods write\<close>

lemma tx_send_loop:
  "\<exists>k\<le>n. tx (snd (send_loop n at timeout w)) = tx w @ concat (replicate k [at, CRLF])
     \<and> (0 < n \<longrightarrow> 0 < k) \<and> (isl (fst (send_loop n at timeout w)) \<longrightarrow> k = n)"
proof (induction n arbitrary: w)
  case 0
  then show ?case by simp
next
  case (Suc n)
  obtain r w1 where ex: "exchange at timeout w = (r, w1)"
    by (cases "exchange at timeout w")
  then have tx1: "tx w1 = tx w @ [at, CRLF]"
    using tx_exchange [of at timeout w] by simp
  show ?case
  proof (cases "last_n 4 r = OK")
    case True
    with ex tx1 have "tx (snd (send_loop (Suc n) at timeout w)) = tx w @ concat (replicate 1 [at, CRLF])
      \<and> \<not> isl (fst (send_loop (Suc n) at timeout w))"
      by simp
    then show ?thesis by (intro exI [of _ 1]) simp
  next
    case False
    from Suc.IH [of "sleep 1 w1"] obtain k where k: "k \<le> n"
      "tx (snd (send_loop n at timeout (sleep 1 w1))) = tx (sleep 1 w1) @ concat (replicate k [at, CRLF])"
      "isl (fst (send_loop n at timeout (sleep 1 w1))) \<longrightarrow> k = n"
      by blast
    with ex tx1 False show ?thesis
      by (intro exI [of _ "Suc k"]) (simp add: tx_sleep)
  qed
qed

lemma tx_send:
  "\<exists>k\<le>nat retries. tx (snd (send at timeout retries w)) = tx w @ concat (replicate k [at, CRLF])
     \<and> (0 < retries \<longrightarrow> 0 < k) \<and> (isl (fst (send at timeout retries w)) \<longrightarrow> k = nat retries)"
  using tx_send_loop [of "nat retries" at timeout w] by (simp add: send_def)

lemma set_concat_replicate: "set (concat (replicate k xs)) \<subseteq> set xs"
  by (induction k) auto

text \<open>The writes of a method: a list that extends the log, with entries from a given set.\<close>

lemma writes_send:
  "\<exists>ws. tx (snd (send at timeout retries w)) = tx w @ ws \<and> set ws \<subseteq> {at, CRLF}"
proof -
  from tx_send [of retries at timeout w] obtain k where
    "tx (snd (send at timeout retries w)) = tx w @ concat (replicate k [at, CRLF])" by blast
  moreover have "set (concat (replicate k [at, CRLF])) \<subseteq> {at, CRLF}"
    using set_concat_replicate [of k "[at, CRLF]"] by simp
  ultimately show ?thesis by blast
qed

lemma writes_mode:
  "\<exists>ws. tx (snd (mode w)) = tx w @ ws \<and> set ws \<subseteq> {''AT+CWMODE?'', CRLF}"
  using writes_send [of "''AT+CWMODE?''" 5 3 w]
  by (auto simp: mode_def split: prod.splits sum.splits)

lemma format_d_1: "format_d 1 = ''1''"
  by code_simp

lemma writes_mode_setter:
  "\<exists>ws. tx (snd (mode_setter MODE_STATION w)) = tx w @ ws \<and> set ws \<subseteq> {''AT+CWMODE=1'', CRLF}"
  using writes_send [of "''AT+CWMODE=1''" 3 3 w]
  by (auto simp: mode_setter_def MODE_STATION_def format_d_1 split: prod.splits sum.splits)

lemma writes_ensure_station:
  "\<exists>ws. tx (snd (ensure_station w)) = tx w @ ws
     \<and> set ws \<subseteq> {''AT+CWMODE?'', ''AT+CWMODE=1'', CRLF}"
proof (cases "mode w")
  case (Pair r w1)
  from writes_mode [of w] Pair obtain ws1 where
    ws1: "tx w1 = tx w @ ws1" "set ws1 \<subseteq> {''AT+CWMODE?'', CRLF}" by auto
  show ?thesis
  proof (cases "\<exists>m. r = Inr m \<and> m \<noteq> MODE_STATION")
    case True
    then have "ensure_station w = mode_setter MODE_STATION w1"
      using Pair by (auto simp: ensure_station_def)
    moreover from writes_mode_setter [of w1] obtain ws2 where
      "tx (snd (mode_setter MODE_STATION w1)) = tx w1 @ ws2" "set ws2 \<subseteq> {''AT+CWMODE=1'', CRLF}"
      by blast
    ultimately have "tx (snd (ensure_station w)) = tx w @ (ws1 @ ws2)
      \<and> set (ws1 @ ws2) \<subseteq> {''AT+CWMODE?'', ''AT+CWMODE=1'', CRLF}"
      using ws1 by auto
    then show ?thesis by blast
  next
    case False
    then have "snd (ensure_station w) = w1"
      using Pair by (auto simp: ensure_station_def split: sum.splits)
    with ws1 have "tx (snd (ensure_station w)) = tx w @ ws1
      \<and> set ws1 \<subseteq> {''AT+CWMODE?'', ''AT+CWMODE=1'', CRLF}"
      by auto
    then show ?thesis by blast
  qed
qed

text \<open>
  Claim C3. When the query \<open>AT+CWJAP?\<close> that \<open>join_ap\<close> sends after its mode check is
  answered, and the answer parses to a record whose \<open>ssid\<close> is the requested one,
  \<open>join_ap\<close> returns that record, and nothing it has written to the UART is a join
  command: no write starts with \<open>AT+CWJAP=\<close>.
\<close>

theorem join_ap_already_joined:
  assumes "ensure_station w = (Inr u, w1)"
    and "send ''AT+CWJAP?'' 10 3 w1 = (Inr cwjap_reply, w2)"
    and "parse_cwjap_response cwjap_reply = Inr (Some parsed_cwjap)"
    and "ssid parsed_cwjap = name"
  shows "join_ap name password w = (Inr parsed_cwjap, w2)
    \<and> (\<exists>ws. tx w2 = tx w @ ws
          \<and> join_command name password \<notin> set ws
          \<and> \<not> (\<exists>c. c \<in> set ws \<and> prefix ''AT+CWJAP='' c))"
proof -
  have ret: "join_ap name password w = (Inr parsed_cwjap, w2)"
    using assms by (simp add: join_ap_def)
  from writes_ensure_station [of w] assms(1) obtain ws1 where
    ws1: "tx w1 = tx w @ ws1" "set ws1 \<subseteq> {''AT+CWMODE?'', ''AT+CWMODE=1'', CRLF}" by auto
  from writes_send [of "''AT+CWJAP?''" 10 3 w1] assms(2) obtain ws2 where
    ws2: "tx w2 = tx w1 @ ws2" "set ws2 \<subseteq> {''AT+CWJAP?'', CRLF}" by auto
  have all: "set (ws1 @ ws2) \<subseteq> {''AT+CWMODE?'', ''AT+CWMODE=1'', ''AT+CWJAP?'', CRLF}"
    using ws1(2) ws2(2) by auto
  have no: "\<not> prefix ''AT+CWJAP='' c"
    if "c \<in> {''AT+CWMODE?'', ''AT+CWMODE=1'', ''AT+CWJAP?'', CRLF}" for c
    using that by (auto simp: CRLF_def CR_def)
  have "join_command name password \<notin> set (ws1 @ ws2)"
  proof
    assume "join_command name password \<in> set (ws1 @ ws2)"
    with all no have "\<not> prefix ''AT+CWJAP='' (join_command name password)" by blast
    then show False by (simp add: join_command_def)
  qed
  moreover have "\<not> (\<exists>c. c \<in> set (ws1 @ ws2) \<and> prefix ''AT+CWJAP='' c)"
    using all no by blast
  moreover have "tx w2 = tx w @ (ws1 @ ws2)"
    using ws1(1) ws2(1) by simp
  ultimately show ?thesis using ret by blast
qed


theorem join_ap_already_joined_witness:
  "fst (ensure_station (radio (''+CWMODE:1'' @ CRLF @ CRLF @ OK @ home_line @ CRLF @ CRLF @ OK)))
     = Inr ()
   \<and> parse_cwjap_response (home_line @ CRLF @ CRLF) = Inr (Some home_info)
   \<and> ssid home_info = ''home''
   \<and> fst (join_ap ''home'' ''pw''
        (radio (''+CWMODE:1'' @ CRLF @ CRLF @ OK @ home_line @ CRLF @ CRLF @ OK))) = Inr home_info
   \<and> tx (snd (join_ap ''home'' ''pw''
        (radio (''+CWMODE:1'' @ CRLF @ CRLF @ OK @ home_line @ CRLF @ CRLF @ OK))))
       = [''AT+CWMODE?'', CRLF, ''AT+CWJAP?'', CRLF]"
proof -
  let ?w = "radio (''+CWMODE:1'' @ CRLF @ CRLF @ OK @ home_line @ CRLF @ CRLF @ OK)"
  let ?w1 = "snd (ensure_station ?w)"
  let ?w2 = "snd (send ''AT+CWJAP?'' 10 3 ?w1)"
  have f1: "fst (ensure_station ?w) = Inr ()" by code_simp
  then have h1: "ensure_station ?w = (Inr (), ?w1)" by (simp add: prod_eq_iff)
  have "fst (send ''AT+CWJAP?'' 10 3 ?w1) = Inr (home_line @ CRLF @ CRLF)" by code_simp
  then have h2: "send ''AT+CWJAP?'' 10 3 ?w1 = (Inr (home_line @ CRLF @ CRLF), ?w2)"
    by (simp add: prod_eq_iff)
  have h3: "parse_cwjap_response (home_line @ CRLF @ CRLF) = Inr (Some home_info)"
    by code_simp
  have h4: "ssid home_info = ''home''" by (simp add: home_info_def)
  have "fst (join_ap ''home'' ''pw'' ?w) = Inr home_info"
    using join_ap_already_joined [OF h1 h2 h3 h4, of "''pw''"] by simp
  moreover have "tx (snd (join_ap ''home'' ''pw'' ?w)) = [''AT+CWMODE?'', CRLF, ''AT+CWJAP?'', CRLF]"
    by code_simp
  ultimately show ?thesis using f1 h3 h4 by blast
qed

section \<open>Properties of \<open>ping\<close>\<close>

lemma console_exchange: "console (snd (exchange at timeout w)) = console w"
  by (simp add: exchange_def uart_write_def Let_def split: prod.splits)

lemma console_send_loop: "console (snd (send_loop n at timeout w)) = console w"
proof (induction n arbitrary: w)
  case 0
  then show ?case by simp
next
  case (Suc n)
  show ?case
    using console_exchange [of at timeout w] Suc.IH [of "sleep 1 (snd (exchange at timeout w))"]
    by (cases "exchange at timeout w") (simp add: sleep_def)
qed

lemma console_send: "console (snd (send at timeout retries w)) = console w"
  by (simp add: send_def console_send_loop)

text \<open>
  Claim C10. Every call of \<open>ping\<close> first sends \<open>AT+CIPV6=1\<close>: the writes of the call are
  one or more rounds of that command and CRLF, followed by the rounds of the ping command.
  When the exchange for \<open>AT+CIPV6=1\<close> ends without the success sentinel, \<open>ping\<close> fails
  with the exception of that exchange and the ping command is never written; when it
  succeeds, \<open>IPv6 enabled.\<close> is printed and the ping command is written at least once.
\<close>

theorem ping_enables_ipv6_first:
  "\<exists>k j. 0 < k
     \<and> tx (snd (ping host w))
         = tx w @ concat (replicate k [''AT+CIPV6=1'', CRLF])
                @ concat (replicate j [ping_command host, CRLF])
     \<and> (case send ''AT+CIPV6=1'' 3 3 w of
          (Inl e, w1) \<Rightarrow> ping host w = (Inl e, w1) \<and> j = 0
        | (Inr r, w1) \<Rightarrow>
            0 < j \<and> console (snd (ping host w)) = console w @ [''IPv6 enabled.''])"
proof -
  obtain res w1 where s1: "send ''AT+CIPV6=1'' 3 3 w = (res, w1)"
    by (cases "send ''AT+CIPV6=1'' 3 3 w")
  from tx_send [of 3 "''AT+CIPV6=1''" 3 w] s1 obtain k where
    k: "0 < k" "tx w1 = tx w @ concat (replicate k [''AT+CIPV6=1'', CRLF])" by auto
  show ?thesis
  proof (cases res)
    case (Inl e)
    with s1 have "ping host w = (Inl e, w1)"
      by (simp add: ping_def enable_ipv6_def)
    with k s1 Inl show ?thesis
      by (intro exI [of _ k] exI [of _ 0]) simp
  next
    case (Inr r)
    let ?w1 = "print ''IPv6 enabled.'' w1"
    let ?s2 = "send (ping_command host) 5 3 ?w1"
    from s1 Inr have en: "enable_ipv6 w = (Inr (), ?w1)"
      by (simp add: enable_ipv6_def)
    then have sndp: "snd (ping host w) = snd ?s2"
      by (simp add: ping_def split: prod.splits sum.splits)
    from tx_send [of 3 "ping_command host" 5 ?w1] obtain j where
      j: "0 < j" "tx (snd ?s2) = tx ?w1 @ concat (replicate j [ping_command host, CRLF])"
      by auto
    have "tx ?w1 = tx w1" by (simp add: print_def)
    with j k sndp have "tx (snd (ping host w)) = tx w @ concat (replicate k [''AT+CIPV6=1'', CRLF])
                @ concat (replicate j [ping_command host, CRLF])"
      by simp
    moreover have "console (snd (ping host w)) = console w @ [''IPv6 enabled.'']"
      using sndp console_send [of "ping_command host" 5 3 ?w1]
        console_send [of "''AT+CIPV6=1''" 3 3 w] s1
      by (simp add: print_def)
    ultimately show ?thesis
      using k(1) j(1) s1 Inr by (intro exI [of _ k] exI [of _ j]) simp
  qed
qed

theorem ping_enables_ipv6_first_witness:
  "fst (send ''AT+CIPV6=1'' 3 3 (radio (''busy'' @ CRLF @ ERROR)))
     = Inl (Exception ''No OK response to AT+CIPV6=1'')
   \<and> fst (ping ''example.org'' (radio (''busy'' @ CRLF @ ERROR)))
     = Inl (Exception ''No OK response to AT+CIPV6=1'')
   \<and> ping_command ''example.org'' \<notin> set (tx (snd (ping ''example.org'' (radio (''busy'' @ CRLF @ ERROR)))))"
proof -
  let ?w = "radio (''busy'' @ CRLF @ ERROR)"
  let ?s = "send ''AT+CIPV6=1'' 3 3 ?w"
  have f: "fst ?s = Inl (Exception ''No OK response to AT+CIPV6=1'')" by code_simp
  then have s: "?s = (Inl (Exception ''No OK response to AT+CIPV6=1''), snd ?s)"
    by (simp add: prod_eq_iff)
  have "ping_command ''example.org'' \<notin> {''AT+CIPV6=1'', CRLF}"
    by (simp add: ping_command_def CRLF_def)
  moreover have "tx ?w = []" by (simp add: radio_def)
  moreover note ping_enables_ipv6_first [of "''example.org''" ?w]
  ultimately have "ping ''example.org'' ?w = (Inl (Exception ''No OK response to AT+CIPV6=1''), snd ?s)
    \<and> ping_command ''example.org'' \<notin> set (tx (snd (ping ''example.org'' ?w)))"
  proof (elim exE conjE)
    fix k j
    assume no: "ping_command ''example.org'' \<notin> {''AT+CIPV6=1'', CRLF}"
      and t0: "tx ?w = []"
      and t: "tx (snd (ping ''example.org'' ?w))
         = tx ?w @ concat (replicate k [''AT+CIPV6=1'', CRLF])
                @ concat (replicate j [ping_command ''example.org'', CRLF])"
      and c: "case ?s of
          (Inl e, w1) \<Rightarrow> ping ''example.org'' ?w = (Inl e, w1) \<and> j = 0
        | (Inr r, w1) \<Rightarrow>
            0 < j \<and> console (snd (ping ''example.org'' ?w)) = console ?w @ [''IPv6 enabled.'']"
    from c have p: "ping ''example.org'' ?w = (Inl (Exception ''No OK response to AT+CIPV6=1''), snd ?s)"
      and j0: "j = 0"
      by (subst (asm) s, simp)+
    have "set (tx (snd (ping ''example.org'' ?w))) \<subseteq> {''AT+CIPV6=1'', CRLF}"
      using t t0 j0 set_concat_replicate [of k "[''AT+CIPV6=1'', CRLF]"] by simp
    with no p show ?thesis by blast
  qed
  then have a: "ping ''example.org'' ?w = (Inl (Exception ''No OK response to AT+CIPV6=1''), snd ?s)"
    and b: "ping_command ''example.org'' \<notin> set (tx (snd (ping ''example.org'' ?w)))"
    by blast+
  from a have "fst (ping ''example.org'' ?w) = Inl (Exception ''No OK response to AT+CIPV6=1'')"
    by simp
  with f b show ?thesis by blast
qed

section \<open>Properties of the reply parsers\<close>






lemma decode_utf8_valid: "utf8_check 0 f \<Longrightarrow> decode_utf8 f = Inr f"
  by (simp add: decode_utf8_def)















lemma status_lines_skip:
  "\<forall>l\<in>set pre. \<not> prefix ''STATUS:'' l \<Longrightarrow> status_lines (pre @ rest) = status_lines rest"
  by (induction pre) auto

lemma status_lines_none: "\<forall>l\<in>set ls. \<not> prefix ''STATUS:'' l \<Longrightarrow> status_lines ls = Inr None"
  using status_lines_skip [of ls "[]"] by simp

lemma py_int_digit:
  assumes "is_digit c"
  shows "py_int [c] = Inr (int (of_char c) - 48)"
proof -
  have "(of_char c :: nat) \<noteq> of_char d"
    if "d \<in> {CHR 0x20, CHR 0x09, CHR 0x0A, CHR 0x0B, CHR 0x0C, CHR 0x0D, CHR ''-'', CHR ''+''}" for d
    using that assms by (auto simp: is_digit_def)
  then have ne: "c \<notin> {CHR 0x20, CHR 0x09, CHR 0x0A, CHR 0x0B, CHR 0x0C, CHR 0x0D, CHR ''-'', CHR ''+''}"
    by blast
  then have "\<not> is_space c" by (simp add: is_space_def)
  then have "strip_chars is_space [c] = [c]" by (simp add: strip_chars_def)
  with ne assms show ?thesis
    by (simp add: py_int_def digits_value_def)
qed

text \<open>
  Claim C9, as amended. The status is read from the single byte that follows \<open>STATUS:\<close>
  on the first line with that prefix: when that byte is a decimal digit, \<open>status\<close>
  returns the value of the digit, whatever follows it on the line. When no line of the
  reply has the prefix, \<open>status\<close> returns \<open>None\<close>.
\<close>

theorem status_reads_one_digit:
  "(send ''AT+CIPSTATUS'' 5 3 w = (Inr reply, w1)
      \<and> bytes_split CRLF reply = pre @ (''STATUS:'' @ c # rest) # post
      \<and> (\<forall>l\<in>set pre. \<not> prefix ''STATUS:'' l)
      \<and> is_digit c
    \<longrightarrow> status w = (Inr (Some (int (of_char c) - 48)), w1))
   \<and> (send ''AT+CIPSTATUS'' 5 3 w = (Inr reply, w1)
      \<and> (\<forall>l\<in>set (bytes_split CRLF reply). \<not> prefix ''STATUS:'' l)
    \<longrightarrow> status w = (Inr None, w1))"
proof (intro conjI impI)
  assume h: "send ''AT+CIPSTATUS'' 5 3 w = (Inr reply, w1)
      \<and> bytes_split CRLF reply = pre @ (''STATUS:'' @ c # rest) # post
      \<and> (\<forall>l\<in>set pre. \<not> prefix ''STATUS:'' l)
      \<and> is_digit c"
  then have "status_lines ((''STATUS:'' @ c # rest) # post) = Inr (Some (int (of_char c) - 48))"
    by (simp add: py_int_digit and_then_def)
  with h show "status w = (Inr (Some (int (of_char c) - 48)), w1)"
    by (simp add: status_def status_lines_skip)
next
  assume "send ''AT+CIPSTATUS'' 5 3 w = (Inr reply, w1)
      \<and> (\<forall>l\<in>set (bytes_split CRLF reply). \<not> prefix ''STATUS:'' l)"
  then show "status w = (Inr None, w1)"
    by (simp add: status_def status_lines_none)
qed

theorem status_reads_one_digit_witness:
  "fst (status (radio (''STATUS:2'' @ CRLF @ CRLF @ OK))) = Inr (Some 2)
   \<and> fst (status (radio (''busy p...'' @ CRLF @ CRLF @ OK))) = Inr None"
proof -
  let ?w = "radio (''STATUS:2'' @ CRLF @ CRLF @ OK)"
  let ?s = "send ''AT+CIPSTATUS'' 5 3 ?w"
  have "fst ?s = Inr (''STATUS:2'' @ CRLF @ CRLF)" by code_simp
  then have 1: "?s = (Inr (''STATUS:2'' @ CRLF @ CRLF), snd ?s)" by (simp add: prod_eq_iff)
  have 2: "bytes_split CRLF (''STATUS:2'' @ CRLF @ CRLF) = [] @ (''STATUS:'' @ CHR ''2'' # []) # [[], []]"
    by code_simp
  have 3: "\<forall>l\<in>set []. \<not> prefix ''STATUS:'' l" by simp
  have 4: "is_digit CHR ''2''" by code_simp
  have 5: "int (of_char CHR ''2'') - 48 = 2" by simp
  have "status ?w = (Inr (Some (int (of_char CHR ''2'') - 48)), snd ?s)"
    using status_reads_one_digit [of ?w "''STATUS:2'' @ CRLF @ CRLF" "snd ?s" "[]" "CHR ''2''" "[]"
        "[[], []]"] 1 2 3 4
    by blast
  then have a: "fst (status ?w) = Inr (Some 2)" unfolding 5 by simp
  let ?v = "radio (''busy p...'' @ CRLF @ CRLF @ OK)"
  let ?t = "send ''AT+CIPSTATUS'' 5 3 ?v"
  have "fst ?t = Inr (''busy p...'' @ CRLF @ CRLF)" by code_simp
  then have 6: "?t = (Inr (''busy p...'' @ CRLF @ CRLF), snd ?t)" by (simp add: prod_eq_iff)
  have 7: "\<forall>l\<in>set (bytes_split CRLF (''busy p...'' @ CRLF @ CRLF)). \<not> prefix ''STATUS:'' l"
    by code_simp
  have "status ?v = (Inr None, snd ?t)"
    using status_reads_one_digit [of ?v "''busy p...'' @ CRLF @ CRLF" "snd ?t" "[]" "CHR ''0''" "[]"
        "[]"] 6 7
    by blast
  then have b: "fst (status ?v) = Inr None" by simp
  from a b show ?thesis by blast
qed

text \<open>
  Claim C9 as it was stated fails on a status code of more than one digit: of the code
  12 only the first digit is read.
\<close>

theorem status_two_digits_counterexample:
  "fst (status (radio (''STATUS:12'' @ CRLF @ CRLF @ OK))) = Inr (Some 1)
   \<and> fst (status (radio (''STATUS:12'' @ CRLF @ CRLF @ OK))) \<noteq> Inr (Some 12)"
  by code_simp

section \<open>Properties of the scan parser\<close>

lemma py_int_error: "py_int v = Inl e \<Longrightarrow> e = ValueError"
  by (auto simp: py_int_def Let_def split: if_splits)

lemma convert_field_error: "convert_field i v = Inl e \<Longrightarrow> is_ValueError e"
  by (auto simp: convert_field_def and_then_def decode_utf8_def is_ValueError_def
      dest: py_int_error split: if_splits sum.splits)

lemma fill_router_keeps:
  "fill_router i vals router = Inr r \<Longrightarrow> length r = length router \<and> (\<forall>j<i. r ! j = router ! j)"
proof (induction vals arbitrary: i router)
  case Nil
  then show ?case by simp
next
  case (Cons val vals)
  from Cons.prems obtain router' where
    step: "fill_router (Suc i) vals router' = Inr r"
      and upd: "router' = router \<or> (\<exists>v. router' = router[i := v])"
    by (auto split: sum.splits option.splits if_splits)
  from Cons.IH [OF step] have "length r = length router'" "\<forall>j<Suc i. r ! j = router' ! j"
    by simp_all
  with upd show ?case by auto
qed





lemma fill_router_valid:
  assumes "\<forall>j<length vals. i + j < 12 \<longrightarrow> utf8_check 0 (vals ! j)"
  shows "\<exists>r. fill_router i vals router = Inr r
     \<and> (\<forall>j<length vals. i + j < length router \<and> numeric_position (i + j)
            \<and> py_int (vals ! j) = Inl ValueError
          \<longrightarrow> r ! (i + j) = Text (strip_quotes (vals ! j)))"
  using assms
proof (induction vals arbitrary: i router)
  case Nil
  then show ?case by simp
next
  case (Cons val vals)
  have tail: "\<forall>j<length vals. Suc i + j < 12 \<longrightarrow> utf8_check 0 (vals ! j)"
    using Cons.prems by fastforce
  have head: "i < 12 \<Longrightarrow> utf8_check 0 val"
    using Cons.prems by fastforce
  have ex: "\<exists>router'. fill_router i (val # vals) router = fill_router (Suc i) vals router'
      \<and> length router' = length router
      \<and> (i < length router \<and> numeric_position i \<and> py_int val = Inl ValueError
          \<longrightarrow> router' ! i = Text (strip_quotes val))"
  proof (cases "convert_field i val")
    case (Inl e)
    then have "i < 12"
      by (auto simp: convert_field_def split: if_splits)
    with head have "decode_utf8 val = Inr val" by (simp add: decode_utf8_valid)
    with Inl convert_field_error [OF Inl]
    have "fill_router i (val # vals) router
        = fill_router (Suc i) vals (router[i := Text (strip_quotes val)])"
      by simp
    then show ?thesis by (intro exI [of _ "router[i := Text (strip_quotes val)]"]) simp
  next
    case (Inr ov)
    then have no: "\<not> (numeric_position i \<and> py_int val = Inl ValueError)"
      by (auto simp: convert_field_def numeric_position_def and_then_def split: if_splits)
    show ?thesis
    proof (cases ov)
      case None
      with Inr no show ?thesis by (intro exI [of _ router]) auto
    next
      case (Some v)
      with Inr no show ?thesis by (intro exI [of _ "router[i := v]"]) auto
    qed
  qed
  then obtain router' where r': "fill_router i (val # vals) router = fill_router (Suc i) vals router'"
    "length router' = length router"
    "i < length router \<and> numeric_position i \<and> py_int val = Inl ValueError
          \<longrightarrow> router' ! i = Text (strip_quotes val)"
    by blast
  from Cons.IH [OF tail, of router'] obtain r where
    r: "fill_router (Suc i) vals router' = Inr r"
      "\<forall>j<length vals. Suc i + j < length router' \<and> numeric_position (Suc i + j)
            \<and> py_int (vals ! j) = Inl ValueError
          \<longrightarrow> r ! (Suc i + j) = Text (strip_quotes (vals ! j))"
    by blast
  from fill_router_keeps [OF r(1)] have keep: "r ! i = router' ! i" by simp
  have "r ! (i + j) = Text (strip_quotes ((val # vals) ! j))"
    if "j < length (val # vals)" "i + j < length router" "numeric_position (i + j)"
      "py_int ((val # vals) ! j) = Inl ValueError" for j
  proof (cases j)
    case 0
    with that r'(3) keep show ?thesis by simp
  next
    case (Suc m)
    with that r(2) r'(2) show ?thesis by simp
  qed
  with r(1) r'(1) show ?case by auto
qed

lemma fill_router_keeps_text:
  assumes "\<forall>i<length vals. i < 12 \<longrightarrow> utf8_check 0 (vals ! i)"
  shows "\<exists>router. fill_router 0 vals (replicate 12 (Text ''Unknown'')) = Inr router
          \<and> length router = 12
          \<and> (\<forall>i<length vals. numeric_position i \<and> py_int (vals ! i) = Inl ValueError
                \<longrightarrow> router ! i = Text (strip_quotes (vals ! i)))"
proof -
  from assms have "\<forall>j<length vals. 0 + j < 12 \<longrightarrow> utf8_check 0 (vals ! j)" by simp
  from fill_router_valid [OF this, of "replicate 12 (Text ''Unknown'')"]
  obtain router where r: "fill_router 0 vals (replicate 12 (Text ''Unknown'')) = Inr router"
    "\<forall>j<length vals. 0 + j < length (replicate 12 (Text ''Unknown'')) \<and> numeric_position (0 + j)
            \<and> py_int (vals ! j) = Inl ValueError
          \<longrightarrow> router ! (0 + j) = Text (strip_quotes (vals ! j))"
    by blast
  from fill_router_keeps [OF r(1)] have len: "length router = 12" by simp
  have "router ! i = Text (strip_quotes (vals ! i))"
    if "i < length vals" "numeric_position i" "py_int (vals ! i) = Inl ValueError" for i
  proof -
    from that(2) have "i < 12" by (simp add: numeric_position_def)
    with that r(2) show ?thesis by simp
  qed
  with r(1) len show ?thesis by blast
qed

text \<open>
  On decodable input the scan does keep such fields: when the first twelve fields of
  every line that starts with \<open>+CWLAP:(\<close> are valid UTF-8, the scan returns one router
  for each of these lines, in their order, and each router keeps as text the fields of
  its line that \<open>int\<close> refuses.
\<close>

lemma scan_lines_keeps_text:
  assumes "\<forall>line\<in>set scan. prefix ''+CWLAP:('' line \<longrightarrow>
      (\<forall>v\<in>set (take 12 (line_fields line)). utf8_check 0 v)"
  shows "\<exists>routers. scan_lines scan = Inr routers
     \<and> list_all2 kept_as_text (filter (prefix ''+CWLAP:('') scan) routers"
  using assms
proof (induction scan)
  case Nil
  then show ?case by simp
next
  case (Cons line scan)
  then obtain routers where rs: "scan_lines scan = Inr routers"
    "list_all2 kept_as_text (filter (prefix ''+CWLAP:('') scan) routers"
    by auto
  show ?case
  proof (cases "prefix ''+CWLAP:('' line")
    case False
    with rs show ?thesis by simp
  next
    case True
    let ?vals = "line_fields line"
    from True Cons.prems have "\<forall>v\<in>set (take 12 ?vals). utf8_check 0 v" by simp
    then have "\<forall>i<length ?vals. i < 12 \<longrightarrow> utf8_check 0 (?vals ! i)"
      by (metis in_set_conv_nth length_take min_less_iff_conj nth_take)
    from fill_router_keeps_text [OF this]
    obtain r where r: "fill_router 0 ?vals (replicate 12 (Text ''Unknown'')) = Inr r"
      "kept_as_text line r"
      unfolding kept_as_text_def by blast
    from r(1) True rs(1) have "scan_lines (line # scan) = Inr (r # routers)"
      by (simp add: and_then_def line_fields_def)
    with True r(2) rs(2) show ?thesis by simp
  qed
qed

text \<open>
  Claim C8 does not hold of the code. A field at a numeric position that is neither a
  number nor UTF-8 text, here the byte \<open>0xFF\<close> at position 6, is refused by \<open>int\<close>.
  The handler, whose comment reads \<open>If it can't be converted, store as string\<close>, decodes
  the field with \<open>str(val, "utf-8")\<close>, and that raises \<open>UnicodeError\<close> from inside the
  handler: no router is produced for the line, and the exception, which is no
  \<open>RuntimeError\<close>, leaves \<open>get_AP\<close>. The same line with the text \<open>n/a\<close> in that place
  gives its router, with \<open>n/a\<close> kept.
\<close>

theorem get_AP_undecodable_field_raises:
  "py_int [CHR 0xFF] = Inl ValueError
   \<and> decode_utf8 [CHR 0xFF] = Inl UnicodeError
   \<and> fill_router 0
        (line_fields (''+CWLAP:(3,net,-55,mac,6,0,'' @ [CHR 0xFF] @ '',0,0,0,0,0)''))
        (replicate 12 (Text ''Unknown'')) = Inl UnicodeError
   \<and> fst (get_AP 3 (radio (''+CWMODE:1'' @ CRLF @ CRLF @ OK
        @ ''+CWLAP:(3,net,-55,mac,6,0,'' @ [CHR 0xFF] @ '',0,0,0,0,0)'' @ CRLF @ CRLF @ OK)))
       = Inl UnicodeError
   \<and> fst (get_AP 3 (radio (''+CWMODE:1'' @ CRLF @ CRLF @ OK
        @ ''+CWLAP:(3,net,-55,mac,6,0,n/a,0,0,0,0,0)'' @ CRLF @ CRLF @ OK)))
       = Inr [[Text ''WPA2-PSK'', Text ''net'', Number (- 55), Text ''mac'', Number 6, Number 0,
               Text ''n/a'', Number 0, Number 0, Number 0, Number 0, Number 0]]"
  by code_simp

section \<open>The retry loops of \<open>get_AP\<close> and \<open>connect\<close>\<close>

text \<open>
  Claim C5 does not hold of the code. The radio answers the mode query and is silent
  afterwards, so that every exchange of the scan command runs to its deadline: \<open>send\<close>
  raises \<open>Exception\<close>, which the handler \<open>except RuntimeError\<close> of \<open>get_AP\<close> does not
  catch. The scan is not tried again and no empty list is returned: the exception leaves
  \<open>get_AP\<close>, after the three rounds of the one call of \<open>send\<close>.
\<close>

theorem get_AP_scan_timeout_raises:
  "fst (get_AP 3 (radio (''+CWMODE:1'' @ CRLF @ CRLF @ OK)))
     = Inl (Exception ''No OK response to AT+CWLAP'')
   \<and> tx (snd (get_AP 3 (radio (''+CWMODE:1'' @ CRLF @ CRLF @ OK))))
     = [''AT+CWMODE?'', CRLF, ''AT+CWLAP'', CRLF, ''AT+CWLAP'', CRLF, ''AT+CWLAP'', CRLF]"
  by code_simp

text \<open>
  Claim C6 does not hold of the code. The radio reports status 5 (not connected) and mode
  1, knows no access point, and answers the join command with \<open>ERROR\<close> each time: the
  \<open>Exception\<close> of \<open>send\<close> passes through \<open>join_ap\<close> and through the handler
  \<open>except RuntimeError\<close> of \<open>connect\<close>; nothing is printed and there is no second
  attempt. The same holds when the radio accepts the join command three times without
  reporting a connection, where \<open>join_ap\<close> itself raises \<open>Exception\<close>. And when each of
  the three attempts ends with a \<open>RuntimeError\<close> (the mode query is answered without a
  \<open>+CWMODE:\<close> line), each is printed and \<open>connect\<close> returns \<open>None\<close>, which is no
  boolean.
\<close>

theorem connect_failure_not_caught:
  "fst (connect home_secrets (radio (''STATUS:5'' @ CRLF @ CRLF @ OK @ ''+CWMODE:1'' @ CRLF @ CRLF @ OK
          @ ''No AP'' @ CRLF @ CRLF @ OK @ ERROR @ ERROR @ ERROR)))
     = Inl (Exception (''No OK response to '' @ join_command ''home'' ''pw''))
   \<and> console (snd (connect home_secrets (radio (''STATUS:5'' @ CRLF @ CRLF @ OK
          @ ''+CWMODE:1'' @ CRLF @ CRLF @ OK @ ''No AP'' @ CRLF @ CRLF @ OK @ ERROR @ ERROR @ ERROR))))
     = []
   \<and> fst (connect home_secrets (radio (''STATUS:5'' @ CRLF @ CRLF @ OK @ ''+CWMODE:1'' @ CRLF @ CRLF @ OK
          @ ''No AP'' @ CRLF @ CRLF @ OK @ OK @ OK @ OK)))
     = Inl (Exception ''Could not connect to the network.'')
   \<and> fst (connect home_secrets (radio (''STATUS:5'' @ CRLF @ CRLF @ OK @ CRLF @ OK
          @ ''STATUS:5'' @ CRLF @ CRLF @ OK @ CRLF @ OK
          @ ''STATUS:5'' @ CRLF @ CRLF @ OK @ CRLF @ OK)))
     = Inr None"
  by code_simp


end
